theory Spec2Isabelle
  imports Complex_Main "HOL-Library.AList" "HOL-Library.Sublist"
begin

section \<open>Data model of the dashboard script \<^verbatim>\<open>myapp_v1.2.py\<close>\<close>

text \<open>
  The script is a single top-to-bottom pipeline over a pandas DataFrame. The model keeps the
  DataFrame as the ordered list of its rows; a row maps a column name to the cell stored there.
  A cell is what pandas can hold in the columns the script touches: a finite number (a value
  of an int64 or float64 column, as the rational it is), the two infinities, NaN, a text
  value, a Timestamp (nanoseconds since the epoch) and NaT. The script does no arithmetic on
  numbers; where it converts an int64 value to a float (the slider bounds of line 106, the
  range comparison of line 117) the model rounds the rational to the nearest double.

  Values the script obtains from widgets (radio buttons, multiselects, sliders) are inputs of the
  model. Conversions that pandas performs on text (parsing a date, parsing a number, printing a
  non-text value) are parameters of the functions that need them.
\<close>

type_synonym timestamp = int

datatype cell = Num rat | PosInf | NegInf | NaN | Str string | Stamp timestamp | NaT

type_synonym row = "string \<Rightarrow> cell"

type_synonym dataframe = "row list"

datatype error = IndexError

abbreviation Trade_Date :: string where "Trade_Date \<equiv> ''Trade Date''"

abbreviation Ticker_Symbol :: string where "Ticker_Symbol \<equiv> ''Ticker Symbol''"

definition isna :: "cell \<Rightarrow> bool" where
  "isna c = (c = NaN \<or> c = NaT)"

definition dropna :: "cell list \<Rightarrow> cell list" where
  "dropna cs = filter (\<lambda>c. \<not> isna c) cs"

definition column :: "string \<Rightarrow> dataframe \<Rightarrow> cell list" where
  "column col df = map (\<lambda>r. r col) df"

subsection \<open>Comparisons, minimum and maximum of a column\<close>

text \<open>
  \<open>cell_less a b\<close> is pandas' \<open>a < b\<close> on one element: numbers and infinities are ordered as
  IEEE orders them, Timestamps by their instant, and a comparison with NaN or NaT is False.
  The script compares only numeric columns with numbers and the date column with Timestamps.
\<close>

fun cell_less :: "cell \<Rightarrow> cell \<Rightarrow> bool" where
  "cell_less (Num a) (Num b) = (a < b)"
| "cell_less (Num a) PosInf = True"
| "cell_less NegInf (Num b) = True"
| "cell_less NegInf PosInf = True"
| "cell_less (Stamp s) (Stamp t) = (s < t)"
| "cell_less _ _ = False"

fun cell_le :: "cell \<Rightarrow> cell \<Rightarrow> bool" where
  "cell_le (Num a) (Num b) = (a \<le> b)"
| "cell_le (Num a) PosInf = True"
| "cell_le NegInf (Num b) = True"
| "cell_le NegInf PosInf = True"
| "cell_le NegInf NegInf = True"
| "cell_le PosInf PosInf = True"
| "cell_le (Stamp s) (Stamp t) = (s \<le> t)"
| "cell_le _ _ = False"

text \<open>\<open>Series.min()\<close> and \<open>Series.max()\<close>; on an empty series both give NaN.\<close>

fun series_min :: "cell list \<Rightarrow> cell" where
  "series_min [] = NaN"
| "series_min (c # cs) = foldl (\<lambda>m x. if cell_less x m then x else m) c cs"

fun series_max :: "cell list \<Rightarrow> cell" where
  "series_max [] = NaN"
| "series_max (c # cs) = foldl (\<lambda>m x. if cell_less m x then x else m) c cs"

definition isfinite :: "cell \<Rightarrow> bool" where
  "isfinite c = (case c of Num v \<Rightarrow> True | _ \<Rightarrow> False)"

subsection \<open>Conversion to float64\<close>

text \<open>
  Rounding to the nearest integer, a tie going to the even one, and with it the rounding of a
  value of at least \<open>2 ^ 52\<close> to a significand of 53 bits: the value is halved until it lies
  below \<open>2 ^ 53\<close>, rounded there, and doubled back.
\<close>

definition round_half_even :: "rat \<Rightarrow> int" where
  "round_half_even y =
     (let f = \<lfloor>y\<rfloor>; d = y - of_int f
      in if d < 1 / 2 then f else if 1 / 2 < d then f + 1 else if even f then f else f + 1)"

function round_significand :: "rat \<Rightarrow> rat" where
  "round_significand y =
     (if y < 2 ^ 53 then of_int (round_half_even y) else 2 * round_significand (y / 2))"
  by pat_completeness auto
termination
proof (relation "measure (\<lambda>y. nat \<lfloor>y\<rfloor>)")
  show "wf (measure (\<lambda>y::rat. nat \<lfloor>y\<rfloor>))"
    by simp
next
  fix y :: rat
  assume "\<not> y < 2 ^ 53"
  then have y: "2 \<le> y"
    by simp
  have "\<lfloor>y / 2\<rfloor> < \<lfloor>y\<rfloor>"
  proof -
    have "y / 2 \<le> y - 1"
      using y by simp
    then have "\<lfloor>y / 2\<rfloor> \<le> \<lfloor>y - 1\<rfloor>"
      by (rule floor_mono)
    then show ?thesis
      by simp
  qed
  moreover have "0 < \<lfloor>y\<rfloor>"
    using y by simp
  ultimately show "(y / 2, y) \<in> measure (\<lambda>y. nat \<lfloor>y\<rfloor>)"
    by simp
qed

declare round_significand.simps [simp del]

text \<open>
  \<open>float(x)\<close> of a numpy scalar, and the cast of an int64 column to float64 that a comparison
  with a Python float makes: the nearest double, a tie going to the even significand. An
  int64 value below \<open>2 ^ 53\<close> in magnitude is a double, and so is every value of a float64
  column, which the rounding of the larger ones leaves as it is; no int64 value overflows.
\<close>

definition float :: "rat \<Rightarrow> rat" where
  "float v =
     (if \<bar>v\<bar> < 2 ^ 53 then v
      else if 0 \<le> v then round_significand v else - round_significand (- v))"

text \<open>A cell of a numeric column as the float64 comparison sees it.\<close>

definition as_float :: "cell \<Rightarrow> cell" where
  "as_float c = (case c of Num v \<Rightarrow> Num (float v) | _ \<Rightarrow> c)"

subsection \<open>Loader (lines 15-16)\<close>

text \<open>
  \<open>pd.to_datetime(..., errors='coerce')\<close> on one element. \<open>parse\<close> is pandas' conversion of a
  value that is not yet a Timestamp; \<open>None\<close> means that the value does not parse, and
  \<open>errors='coerce'\<close> turns that into NaT instead of raising.
\<close>

definition to_datetime :: "(cell \<Rightarrow> timestamp option) \<Rightarrow> cell \<Rightarrow> cell" where
  "to_datetime parse c =
     (case c of
        Stamp t \<Rightarrow> Stamp t
      | NaT \<Rightarrow> NaT
      | NaN \<Rightarrow> NaT
      | _ \<Rightarrow> (case parse c of Some t \<Rightarrow> Stamp t | None \<Rightarrow> NaT))"

definition coerce_Trade_Date :: "(cell \<Rightarrow> timestamp option) \<Rightarrow> dataframe \<Rightarrow> dataframe" where
  "coerce_Trade_Date parse df = map (\<lambda>r. r(Trade_Date := to_datetime parse (r Trade_Date))) df"

definition dropna_Trade_Date :: "dataframe \<Rightarrow> dataframe" where
  "dropna_Trade_Date df = filter (\<lambda>r. \<not> isna (r Trade_Date)) df"

definition load :: "(cell \<Rightarrow> timestamp option) \<Rightarrow> dataframe \<Rightarrow> dataframe" where
  "load parse df = dropna_Trade_Date (coerce_Trade_Date parse df)"

subsection \<open>Filter resolver (lines 18-41)\<close>

text \<open>\<open>df['Trade Date'].max()\<close>: the latest Timestamp, NaT when no row is left.\<close>

definition latest_date :: "dataframe \<Rightarrow> cell" where
  "latest_date df =
     (case dropna (column Trade_Date df) of [] \<Rightarrow> NaT | c # cs \<Rightarrow> series_max (c # cs))"

text \<open>\<open>pd.Timedelta(days=d, weeks=w)\<close> in nanoseconds.\<close>

definition Timedelta :: "int \<Rightarrow> int \<Rightarrow> int" where
  "Timedelta days weeks = (days + 7 * weeks) * 86400000000000"

text \<open>Timestamp minus Timedelta; NaT minus anything is NaT.\<close>

definition minus_Timedelta :: "cell \<Rightarrow> int \<Rightarrow> cell" where
  "minus_Timedelta c d = (case c of Stamp t \<Rightarrow> Stamp (t - d) | _ \<Rightarrow> NaT)"

definition yesterday :: "cell \<Rightarrow> cell" where
  "yesterday latest = minus_Timedelta latest (Timedelta 1 0)"

definition last_week :: "cell \<Rightarrow> cell" where
  "last_week latest = minus_Timedelta latest (Timedelta 0 1)"

definition last_month :: "cell \<Rightarrow> cell" where
  "last_month latest = minus_Timedelta latest (Timedelta 30 0)"

datatype date_filter = Latest_Date | Yesterday | Last_1_Week | Last_1_Month | Custom_Date_Range

text \<open>
  \<open>date_input\<close> is what the date picker returns in the custom mode: a tuple of the dates picked
  so far, here already as Timestamps at midnight.
\<close>

definition date_range :: "date_filter \<Rightarrow> cell \<Rightarrow> cell list \<Rightarrow> cell list" where
  "date_range date_filter_option latest date_input =
     (case date_filter_option of
        Latest_Date \<Rightarrow> [latest, latest]
      | Yesterday \<Rightarrow> [yesterday latest, latest]
      | Last_1_Week \<Rightarrow> [last_week latest, latest]
      | Last_1_Month \<Rightarrow> [last_month latest, latest]
      | Custom_Date_Range \<Rightarrow> date_input)"

text \<open>
  The Timestamp of midnight on a calendar day of the proleptic Gregorian calendar, as
  \<open>pd.Timestamp(year, month, day)\<close> gives it: the day number counted from 1970-01-01, in
  nanoseconds.
\<close>

definition days_from_civil :: "int \<Rightarrow> int \<Rightarrow> int \<Rightarrow> int" where
  "days_from_civil y m d =
     (let y' = (if m \<le> 2 then y - 1 else y);
          era = y' div 400;
          yoe = y' - era * 400;
          mp = (m + 9) mod 12;
          doy = (153 * mp + 2) div 5 + d - 1;
          doe = yoe * 365 + yoe div 4 - yoe div 100 + doy
      in era * 146097 + doe - 719468)"

definition Timestamp :: "int \<Rightarrow> int \<Rightarrow> int \<Rightarrow> cell" where
  "Timestamp y m d = Stamp (days_from_civil y m d * 86400000000000)"

subsection \<open>Symbol selection (lines 61-67)\<close>

text \<open>\<open>Series.unique()\<close>: the distinct values in order of first appearance.\<close>

fun unique :: "'a list \<Rightarrow> 'a list" where
  "unique [] = []"
| "unique (x # xs) = x # filter (\<lambda>y. y \<noteq> x) (unique xs)"

definition symbols :: "dataframe \<Rightarrow> cell list" where
  "symbols df = unique (dropna (column Ticker_Symbol df))"

definition selected_tickers :: "dataframe \<Rightarrow> bool \<Rightarrow> cell list \<Rightarrow> cell list" where
  "selected_tickers df select_all multiselect =
     (if select_all then symbols df else multiselect)"

subsection \<open>Numeric range engine (lines 80-107)\<close>

text \<open>
  \<open>pd.to_numeric(..., errors='coerce')\<close> on one element: a numeric value stays, anything else
  is converted by \<open>num\<close> (the finite number a text spells), and what does not convert becomes
  NaN. A text spelling an infinity is NaN after the next line in either case.
\<close>

definition to_numeric :: "(cell \<Rightarrow> rat option) \<Rightarrow> cell \<Rightarrow> cell" where
  "to_numeric num c =
     (case c of
        Num v \<Rightarrow> Num v
      | PosInf \<Rightarrow> PosInf
      | NegInf \<Rightarrow> NegInf
      | NaN \<Rightarrow> NaN
      | _ \<Rightarrow> (case num c of Some v \<Rightarrow> Num v | None \<Rightarrow> NaN))"

text \<open>\<open>.replace([np.inf, -np.inf], np.nan)\<close> on one element.\<close>

definition replace_inf :: "cell \<Rightarrow> cell" where
  "replace_inf c = (case c of PosInf \<Rightarrow> NaN | NegInf \<Rightarrow> NaN | _ \<Rightarrow> c)"

text \<open>Lines 82-83: both assignments to \<open>df[col]\<close>.\<close>

definition coerce_column :: "(cell \<Rightarrow> rat option) \<Rightarrow> string \<Rightarrow> dataframe \<Rightarrow> dataframe" where
  "coerce_column num col df = map (\<lambda>r. r(col := replace_inf (to_numeric num (r col)))) df"

datatype value_type = All_Values | Only_Positive | Only_Negative

text \<open>Lines 96-99: the sign filter replaces the whole DataFrame.\<close>

definition apply_value_filter :: "value_type \<Rightarrow> string \<Rightarrow> dataframe \<Rightarrow> dataframe" where
  "apply_value_filter value_filter col df =
     (case value_filter of
        Only_Positive \<Rightarrow> filter (\<lambda>r. cell_less (Num 0) (r col)) df
      | Only_Negative \<Rightarrow> filter (\<lambda>r. cell_less (r col) (Num 0)) df
      | All_Values \<Rightarrow> df)"

type_synonym filters = "(string \<times> rat \<times> rat) list"

text \<open>
  One iteration of the loop at line 81. \<open>value_filter col\<close> is the radio button's value for the
  column and \<open>slider col lo hi\<close> the pair the range slider returns when it is created with
  bounds \<open>lo\<close> and \<open>hi\<close>. The dictionary \<open>filters\<close> is an association list in insertion order.
  \<open>np.isfinite\<close> holds of the minimum and the maximum exactly when both are finite numbers;
  the slider is then created with their conversions by \<open>float\<close> as its bounds and returns a
  pair of floats. The slider is taken to return: what Streamlit does when both bounds are
  equal depends on its version and is not part of this script.
\<close>

definition numeric_step ::
  "(cell \<Rightarrow> rat option) \<Rightarrow> (string \<Rightarrow> value_type) \<Rightarrow> (string \<Rightarrow> rat \<Rightarrow> rat \<Rightarrow> rat \<times> rat) \<Rightarrow>
   string \<Rightarrow> dataframe \<times> filters \<Rightarrow> dataframe \<times> filters" where
  "numeric_step num value_filter slider col st =
     (let df = apply_value_filter (value_filter col) col (coerce_column num col (fst st));
          min_val = series_min (dropna (column col df));
          max_val = series_max (dropna (column col df))
      in case (min_val, max_val) of
           (Num lo, Num hi) \<Rightarrow>
             (df, AList.update col (slider col (float lo) (float hi)) (snd st))
         | _ \<Rightarrow> (df, snd st))"

fun numeric_loop ::
  "(cell \<Rightarrow> rat option) \<Rightarrow> (string \<Rightarrow> value_type) \<Rightarrow> (string \<Rightarrow> rat \<Rightarrow> rat \<Rightarrow> rat \<times> rat) \<Rightarrow>
   string list \<Rightarrow> dataframe \<times> filters \<Rightarrow> dataframe \<times> filters" where
  "numeric_loop num value_filter slider [] st = st"
| "numeric_loop num value_filter slider (col # cols) st =
     numeric_loop num value_filter slider cols (numeric_step num value_filter slider col st)"

text \<open>The slider left untouched returns its default, the full range.\<close>

definition default_slider :: "string \<Rightarrow> rat \<Rightarrow> rat \<Rightarrow> rat \<times> rat" where
  "default_slider col lo hi = (lo, hi)"

subsection \<open>Filter compositor (lines 110-117)\<close>

text \<open>
  Line 117 for one entry of \<open>filters\<close>. The bounds are Python floats, so the column is compared
  as float64.
\<close>

definition range_filter :: "dataframe \<Rightarrow> string \<times> rat \<times> rat \<Rightarrow> dataframe" where
  "range_filter fd e =
     (case e of (col, min_val, max_val) \<Rightarrow>
        filter (\<lambda>r. cell_le (Num min_val) (as_float (r col)) \<and>
                     cell_le (as_float (r col)) (Num max_val)) fd)"

text \<open>Line 110: \<open>df[df['Ticker Symbol'].isin(selected_tickers)]\<close>.\<close>

definition isin_filter :: "dataframe \<Rightarrow> cell list \<Rightarrow> dataframe" where
  "isin_filter df tickers = filter (\<lambda>r. r Ticker_Symbol \<in> set tickers) df"

text \<open>Lines 113-114: both ends of the window are inclusive.\<close>

definition date_window_filter :: "dataframe \<Rightarrow> cell \<Rightarrow> cell \<Rightarrow> dataframe" where
  "date_window_filter fd d0 d1 =
     filter (\<lambda>r. cell_le d0 (r Trade_Date) \<and> cell_le (r Trade_Date) d1) fd"

text \<open>
  \<open>date_range[0]\<close> and \<open>date_range[1]\<close> raise IndexError on a shorter tuple. The column
  'Trade Date' exists (line 15 has read it), so the test at line 112 is true.
\<close>

fun filtered_df :: "dataframe \<Rightarrow> cell list \<Rightarrow> cell list \<Rightarrow> filters \<Rightarrow> error + dataframe" where
  "filtered_df df tickers (d0 # d1 # ds) fs =
     Inr (foldl range_filter (date_window_filter (isin_filter df tickers) d0 d1) fs)"
| "filtered_df df tickers ds fs = Inl IndexError"

text \<open>Lines 80-117: the loop over the selected numeric columns, then the compositor.\<close>

definition apply_filters ::
  "(cell \<Rightarrow> rat option) \<Rightarrow> (string \<Rightarrow> value_type) \<Rightarrow> (string \<Rightarrow> rat \<Rightarrow> rat \<Rightarrow> rat \<times> rat) \<Rightarrow>
   string list \<Rightarrow> dataframe \<Rightarrow> cell list \<Rightarrow> cell list \<Rightarrow> error + dataframe" where
  "apply_filters num value_filter slider cols df tickers dr =
     (let st = numeric_loop num value_filter slider cols (df, [])
      in filtered_df (fst st) tickers dr (snd st))"

subsection \<open>Link transformer (lines 120-123)\<close>

definition make_tradingview_link :: "string \<Rightarrow> string" where
  "make_tradingview_link ticker =
     ''['' @ ticker @ ''](https://www.tradingview.com/chart/?symbol=NSE:'' @ ticker @ '')''"

text \<open>
  What an f-string prints for a cell: a text as it is, any other value as \<open>repr\<close> (Python's
  \<open>str\<close>) prints it.
\<close>

definition format_value :: "(cell \<Rightarrow> string) \<Rightarrow> cell \<Rightarrow> string" where
  "format_value repr c = (case c of Str s \<Rightarrow> s | _ \<Rightarrow> repr c)"

definition apply_link :: "(cell \<Rightarrow> string) \<Rightarrow> dataframe \<Rightarrow> dataframe" where
  "apply_link repr fd =
     map (\<lambda>r. r(Ticker_Symbol := Str (make_tradingview_link (format_value repr (r Ticker_Symbol))))) fd"

subsection \<open>Paginator (lines 126-135)\<close>

definition rows_per_page :: int where
  "rows_per_page = 10"

definition num_rows :: "'a list \<Rightarrow> int" where
  "num_rows fd = int (length fd)"

text \<open>\<open>.iloc[start:end]\<close> with Python's slice rules: a negative index counts from the end,
  and both ends are clamped to the frame.\<close>

definition slice_index :: "int \<Rightarrow> int \<Rightarrow> int" where
  "slice_index i n = (if i < 0 then max 0 (i + n) else min i n)"

definition iloc :: "'a list \<Rightarrow> int \<Rightarrow> int \<Rightarrow> 'a list" where
  "iloc xs start stop =
     (let n = int (length xs); a = slice_index start n; b = slice_index stop n
      in take (nat (b - a)) (drop (nat a) xs))"

text \<open>The bounds given to the page slider at line 130; it returns a value between them.\<close>

definition page_number_bounds :: "'a list \<Rightarrow> int \<times> int" where
  "page_number_bounds fd = (1, (num_rows fd div rows_per_page) + 1)"

definition page_selectable :: "'a list \<Rightarrow> int \<Rightarrow> bool" where
  "page_selectable fd page_number =
     (rows_per_page < num_rows fd \<and>
      fst (page_number_bounds fd) \<le> page_number \<and> page_number \<le> snd (page_number_bounds fd))"

definition filtered_df_paginated :: "'a list \<Rightarrow> int \<Rightarrow> 'a list" where
  "filtered_df_paginated fd page_number =
     (if num_rows fd > rows_per_page then
        (let start_row = (page_number - 1) * rows_per_page;
             end_row = start_row + rows_per_page
         in iloc fd start_row end_row)
      else fd)"

subsection \<open>Display and export (lines 138-142)\<close>

text \<open>
  \<open>frame[display_columns]\<close>: the cells of the chosen columns, in the chosen order, row by row.
  The table is what \<open>to_markdown\<close> and \<open>to_csv\<close> then print; the header is the column list.
\<close>

definition select_columns :: "string list \<Rightarrow> dataframe \<Rightarrow> cell list list" where
  "select_columns display_columns fd = map (\<lambda>r. map r display_columns) fd"

subsection \<open>The whole script\<close>

record pandas =
  parse_date :: "cell \<Rightarrow> timestamp option"
  parse_number :: "cell \<Rightarrow> rat option"
  str :: "cell \<Rightarrow> string"

record widgets =
  date_filter_option :: date_filter
  date_input :: "cell list"
  display_columns :: "string list"
  select_all :: bool
  multiselect_symbols :: "cell list"
  selected_numeric_columns :: "string list"
  value_filter :: "string \<Rightarrow> value_type"
  slider :: "string \<Rightarrow> rat \<Rightarrow> rat \<Rightarrow> rat \<times> rat"
  page_number :: int

record rendered =
  shown :: "cell list list"
  csv :: "cell list list"

text \<open>
  Lines 15-117: the filtered frame before the symbols are rewritten. The date window and the
  symbols are taken from the loaded frame, before the sign filters of the loop shrink it.
\<close>

definition screen :: "pandas \<Rightarrow> widgets \<Rightarrow> dataframe \<Rightarrow> error + dataframe" where
  "screen pd w raw =
     (let df = load (parse_date pd) raw;
          dr = date_range (date_filter_option w) (latest_date df) (date_input w);
          tickers = selected_tickers df (select_all w) (multiselect_symbols w)
      in apply_filters (parse_number pd) (value_filter w) (slider w)
           (selected_numeric_columns w) df tickers dr)"

definition app :: "pandas \<Rightarrow> widgets \<Rightarrow> dataframe \<Rightarrow> error + rendered" where
  "app pd w raw =
     (case screen pd w raw of
        Inl e \<Rightarrow> Inl e
      | Inr fd \<Rightarrow>
          (let linked = apply_link (str pd) fd
           in Inr \<lparr> shown = select_columns (display_columns w)
                              (filtered_df_paginated linked (page_number w)),
                    csv = select_columns (display_columns w) linked \<rparr>))"

subsection \<open>The compositor's predicate in the specification's words\<close>

text \<open>
  The specification describes the compositor by a predicate on rows: the symbol is selected,
  the trade date lies in the window, and every field with an active range lies in its range.
  A missing or non-numeric value lies in no range, and a missing date in no window.
\<close>

definition in_window :: "timestamp \<Rightarrow> timestamp \<Rightarrow> cell \<Rightarrow> bool" where
  "in_window start end c = (case c of Stamp t \<Rightarrow> start \<le> t \<and> t \<le> end | _ \<Rightarrow> False)"

definition in_range :: "rat \<Rightarrow> rat \<Rightarrow> cell \<Rightarrow> bool" where
  "in_range lo hi c = (case c of Num v \<Rightarrow> lo \<le> v \<and> v \<le> hi | _ \<Rightarrow> False)"

definition passes_exact :: "cell set \<Rightarrow> timestamp \<Rightarrow> timestamp \<Rightarrow> filters \<Rightarrow> row \<Rightarrow> bool" where
  "passes_exact S start end fs r =
     (r Ticker_Symbol \<in> S \<and> in_window start end (r Trade_Date) \<and>
      list_all (\<lambda>(col, lo, hi). in_range lo hi (r col)) fs)"

text \<open>The same predicate with every range test made on the value converted to float64.\<close>

definition passes :: "cell set \<Rightarrow> timestamp \<Rightarrow> timestamp \<Rightarrow> filters \<Rightarrow> row \<Rightarrow> bool" where
  "passes S start end fs r =
     (r Ticker_Symbol \<in> S \<and> in_window start end (r Trade_Date) \<and>
      list_all (\<lambda>(col, lo, hi). in_range lo hi (as_float (r col))) fs)"

text \<open>A row whose values in the fields with an active range are doubles.\<close>

definition representable :: "filters \<Rightarrow> row \<Rightarrow> bool" where
  "representable fs r = list_all (\<lambda>(col, lo, hi). as_float (r col) = r col) fs"

text \<open>The conjunction of the range tests of line 117 over all entries of \<open>filters\<close>.\<close>

definition range_ok :: "filters \<Rightarrow> row \<Rightarrow> bool" where
  "range_ok fs r =
     list_all (\<lambda>(col, lo, hi). cell_le (Num lo) (as_float (r col)) \<and>
                                cell_le (as_float (r col)) (Num hi)) fs"

subsection \<open>The numeric range engine in the specification's words\<close>

text \<open>Lines 82-83 on one element: coercion to a number, then the infinities made missing.\<close>

definition scrub :: "(cell \<Rightarrow> rat option) \<Rightarrow> cell \<Rightarrow> cell" where
  "scrub num c = replace_inf (to_numeric num c)"

text \<open>A row after the columns \<open>cols\<close> have gone through lines 82-83.\<close>

definition scrubbed :: "(cell \<Rightarrow> rat option) \<Rightarrow> string list \<Rightarrow> row \<Rightarrow> row" where
  "scrubbed num cols r = (\<lambda>col. if col \<in> set cols then scrub num (r col) else r col)"

text \<open>
  The sign filter as the specification words it: positive-only keeps a value above 0,
  negative-only a value below 0, and the third mode keeps everything.
\<close>

definition keeps :: "value_type \<Rightarrow> cell \<Rightarrow> bool" where
  "keeps vt c =
     (case vt of
        All_Values \<Rightarrow> True
      | Only_Positive \<Rightarrow> (case c of Num v \<Rightarrow> 0 < v | _ \<Rightarrow> False)
      | Only_Negative \<Rightarrow> (case c of Num v \<Rightarrow> v < 0 | _ \<Rightarrow> False))"

text \<open>
  The working set after the fields \<open>cols\<close>: the rows that pass the sign filter of every one of
  these fields, taken all at once, with these fields coerced.
\<close>

definition working_set ::
  "(cell \<Rightarrow> rat option) \<Rightarrow> (string \<Rightarrow> value_type) \<Rightarrow> string list \<Rightarrow> dataframe \<Rightarrow> dataframe" where
  "working_set num vf cols df =
     map (scrubbed num cols)
       (filter (\<lambda>r. list_all (\<lambda>col. keeps (vf col) (scrub num (r col))) cols) df)"

text \<open>The non-missing finite values of a column, and the range they span, if any.\<close>

definition finite_values :: "cell list \<Rightarrow> rat list" where
  "finite_values cs = concat (map (\<lambda>c. case c of Num v \<Rightarrow> [v] | _ \<Rightarrow> []) cs)"

definition offered_range :: "string \<Rightarrow> dataframe \<Rightarrow> (rat \<times> rat) option" where
  "offered_range col ws =
     (case finite_values (column col ws) of
        [] \<Rightarrow> None
      | v # vs \<Rightarrow> Some (Min (set (v # vs)), Max (set (v # vs))))"

text \<open>What a column holds after lines 82-83: finite numbers and NaN.\<close>

definition numeric_cell :: "cell \<Rightarrow> bool" where
  "numeric_cell c = (case c of Num v \<Rightarrow> True | NaN \<Rightarrow> True | _ \<Rightarrow> False)"

text \<open>Lines 82-99 for one column: coercion, then the sign filter on the whole frame.\<close>

definition sign_filtered ::
  "(cell \<Rightarrow> rat option) \<Rightarrow> value_type \<Rightarrow> string \<Rightarrow> dataframe \<Rightarrow> dataframe" where
  "sign_filtered num vt col df = apply_value_filter vt col (coerce_column num col df)"

text \<open>Every row of the working frame lies in every range collected so far.\<close>

definition ranges_cover :: "dataframe \<times> filters \<Rightarrow> bool" where
  "ranges_cover st = list_all (range_ok (snd st)) (fst st)"

subsection \<open>Loader, link and export in the specification's words\<close>


text \<open>A row as line 15 leaves it.\<close>

definition fix_date :: "(cell \<Rightarrow> timestamp option) \<Rightarrow> row \<Rightarrow> row" where
  "fix_date parse r = r(Trade_Date := to_datetime parse (r Trade_Date))"

text \<open>
  The cells of one exported row: the chosen columns in their order, the symbol replaced by
  its link.
\<close>

definition linked_cells :: "(cell \<Rightarrow> string) \<Rightarrow> string list \<Rightarrow> row \<Rightarrow> cell list" where
  "linked_cells repr cols r =
     map (\<lambda>col. if col = Ticker_Symbol
                 then Str (make_tradingview_link (format_value repr (r Ticker_Symbol)))
                 else r col) cols"

subsection \<open>Rows for examples\<close>

text \<open>The row of one CSV line: the cells by column name, NaN where the line has no value.\<close>

definition row_of :: "(string \<times> cell) list \<Rightarrow> row" where
  "row_of kvs = (\<lambda>col. case map_of kvs col of Some v \<Rightarrow> v | None \<Rightarrow> NaN)"

definition quote :: "cell \<Rightarrow> cell \<Rightarrow> cell \<Rightarrow> cell \<Rightarrow> row" where
  "quote d s a b = row_of [(Trade_Date, d), (Ticker_Symbol, s), (''CHG%'', a), (''Change OI'', b)]"

text \<open>A small session: four CSV lines, one with a date that does not parse.\<close>

definition demo_parse_date :: "cell \<Rightarrow> timestamp option" where
  "demo_parse_date c =
     (if c = Str ''2024-06-10'' then Some (days_from_civil 2024 6 10 * 86400000000000)
      else if c = Str ''2024-06-07'' then Some (days_from_civil 2024 6 7 * 86400000000000)
      else None)"

definition demo_pandas :: pandas where
  "demo_pandas = \<lparr> parse_date = demo_parse_date, parse_number = (\<lambda>c. None), str = (\<lambda>c. ''nan'') \<rparr>"

definition demo_widgets :: widgets where
  "demo_widgets =
     \<lparr> date_filter_option = Last_1_Week, date_input = [],
       display_columns = [Ticker_Symbol, ''CHG%''],
       select_all = True, multiselect_symbols = [],
       selected_numeric_columns = [''CHG%''],
       value_filter = (\<lambda>col. Only_Positive), slider = default_slider, page_number = 1 \<rparr>"

definition demo_rows :: dataframe where
  "demo_rows =
     [quote (Str ''2024-06-10'') (Str ''ACC'') (Num 1) (Num 2),
      quote (Str ''no date'') (Str ''TCS'') (Num 1) (Num 2),
      quote (Str ''2024-06-07'') (Str ''TCS'') (Num (-3)) (Num 2),
      quote (Str ''2024-06-07'') (Str ''INFY'') (Num 4) (Num 5)]"

text \<open>What the session shows and exports.\<close>

definition demo_rendered :: rendered where
  "demo_rendered =
     \<lparr> shown = [[Str ''[ACC](https://www.tradingview.com/chart/?symbol=NSE:ACC)'', Num 1],
                [Str ''[INFY](https://www.tradingview.com/chart/?symbol=NSE:INFY)'', Num 4]],
       csv = [[Str ''[ACC](https://www.tradingview.com/chart/?symbol=NSE:ACC)'', Num 1],
              [Str ''[INFY](https://www.tradingview.com/chart/?symbol=NSE:INFY)'', Num 4]] \<rparr>"

text \<open>Three rows whose two numeric fields differ in sign.\<close>

definition demo_quotes :: dataframe where
  "demo_quotes =
     [quote (Stamp 5) (Str ''ACC'') (Num 1) (Num (- 1)),
      quote (Stamp 5) (Str ''ACC'') (Num 5) (Num 2),
      quote (Stamp 5) (Str ''TCS'') (Num 3) (Num 4)]"

text \<open>Two rows with an int64 field above \<open>2 ^ 53\<close>, where not every integer is a double.\<close>

definition demo_big :: dataframe where
  "demo_big =
     [quote (Stamp 5) (Str ''ACC'') NaN (Num 9007199254740992),
      quote (Stamp 5) (Str ''TCS'') NaN (Num 9007199254740995)]"

section \<open>Conversion to float64\<close>

lemma rhe_floor: "\<lfloor>y\<rfloor> \<le> round_half_even y \<and> round_half_even y \<le> \<lfloor>y\<rfloor> + 1"
  by (simp add: round_half_even_def Let_def)

lemma rhe_int [simp]: "round_half_even (of_int n) = n"
  by (simp add: round_half_even_def)

lemma rhe_ge: "of_int n \<le> y \<Longrightarrow> n \<le> round_half_even y"
  using rhe_floor [of y] by (simp add: le_floor_iff [symmetric]) 

lemma rhe_le: "y \<le> of_int n \<Longrightarrow> round_half_even y \<le> n"
proof (cases "y = of_int n")
  case True
  then show ?thesis by simp
next
  case False
  assume "y \<le> of_int n"
  with False have "y < of_int n" by simp
  then have "\<lfloor>y\<rfloor> < n" by (simp add: floor_less_iff)
  with rhe_floor [of y] show ?thesis by simp
qed

lemma rhe_mono: "y \<le> y' \<Longrightarrow> round_half_even y \<le> round_half_even y'"
proof (cases "\<lfloor>y\<rfloor> = \<lfloor>y'\<rfloor>")
  case True
  assume "y \<le> y'"
  then have "y - of_int \<lfloor>y\<rfloor> \<le> y' - of_int \<lfloor>y'\<rfloor>" using True by simp
  then show ?thesis
    using True by (auto simp: round_half_even_def Let_def)
next
  case False
  assume "y \<le> y'"
  then have "\<lfloor>y\<rfloor> \<le> \<lfloor>y'\<rfloor>" by (rule floor_mono)
  with False have "\<lfloor>y\<rfloor> + 1 \<le> \<lfloor>y'\<rfloor>" by simp
  with rhe_floor [of y] rhe_floor [of y'] show ?thesis by linarith
qed

lemma scale_lower: "2 ^ 52 \<le> y \<Longrightarrow> 2 ^ 52 \<le> round_significand y"
proof (induction y rule: round_significand.induct)
  case (1 y)
  show ?case
  proof (cases "y < 2 ^ 53")
    case True
    have "(2 ^ 52 :: int) \<le> round_half_even y"
      using 1(2) by (intro rhe_ge) simp
    then have "(of_int (2 ^ 52) :: rat) \<le> of_int (round_half_even y)"
      by (simp only: of_int_le_iff)
    then show ?thesis using True by (simp add: round_significand.simps [of y])
  next
    case False
    then have "2 ^ 52 \<le> y / 2" by simp
    then have "2 ^ 52 \<le> round_significand (y / 2)" using 1(1) False by simp
    then show ?thesis using False by (simp add: round_significand.simps [of y])
  qed
qed

lemma scale_big: "2 ^ 53 \<le> y \<Longrightarrow> 2 ^ 53 \<le> round_significand y"
proof -
  assume a: "2 ^ 53 \<le> y"
  then have "2 ^ 52 \<le> y / 2" by simp
  then have "2 ^ 52 \<le> round_significand (y / 2)" by (rule scale_lower)
  then show ?thesis using a by (simp add: round_significand.simps [of y])
qed

lemma scale_small: "y < 2 ^ 53 \<Longrightarrow> round_significand y \<le> 2 ^ 53"
proof -
  assume a: "y < 2 ^ 53"
  have "round_half_even y \<le> 2 ^ 53"
    using a by (intro rhe_le) simp
  then have "(of_int (round_half_even y) :: rat) \<le> of_int (2 ^ 53)"
    by (simp only: of_int_le_iff)
  then show ?thesis using a by (simp add: round_significand.simps [of y])
qed

lemma scale_mono: "y \<le> y' \<Longrightarrow> round_significand y \<le> round_significand y'"
proof (induction y' arbitrary: y rule: round_significand.induct)
  case (1 y')
  show ?case
  proof (cases "y' < 2 ^ 53")
    case True
    then have "y < 2 ^ 53" using 1(2) by simp
    then show ?thesis
      using True rhe_mono [OF 1(2)] by (simp add: round_significand.simps [of y] round_significand.simps [of y'])
  next
    case False
    show ?thesis
    proof (cases "y < 2 ^ 53")
      case True
      have "round_significand y \<le> 2 ^ 53" using True by (rule scale_small)
      also have "\<dots> \<le> round_significand y'" using False by (intro scale_big) simp
      finally show ?thesis .
    next
      case F: False
      have "round_significand (y / 2) \<le> round_significand (y' / 2)"
        using 1(1) [OF False, of "y / 2"] 1(2) by simp
      then show ?thesis
        using False F by (simp add: round_significand.simps [of y] round_significand.simps [of y'])
    qed
  qed
qed

lemma float_mono: "v \<le> v' \<Longrightarrow> float v \<le> float v'"
proof -
  assume le: "v \<le> v'"
  have big: "2 ^ 53 \<le> round_significand x" if "\<not> \<bar>x\<bar> < 2 ^ 53" "0 \<le> x" for x :: rat
    using that by (intro scale_big) simp
  have bigneg: "2 ^ 53 \<le> round_significand (- x)" if "\<not> \<bar>x\<bar> < 2 ^ 53" "\<not> 0 \<le> x" for x :: rat
    using that by (intro scale_big) simp
  show ?thesis
    using le big [of v] big [of v'] bigneg [of v] bigneg [of v']
      scale_mono [of v v'] scale_mono [of "- v'" "- v"]
    by (auto simp: float_def)
qed

lemma floor_numeral_div:
  "\<lfloor>numeral a / numeral b :: rat\<rfloor> = numeral a div numeral b"
  using floor_divide_of_int_eq [of "numeral a" "numeral b", where ?'a = rat] by simp

lemma float_tie_down: "float 9007199254740993 = 9007199254740992"
  by (simp add: float_def round_significand.simps round_half_even_def Let_def floor_numeral_div)

lemma float_tie_up: "float 9007199254740995 = 9007199254740996"
  by (simp add: float_def round_significand.simps round_half_even_def Let_def floor_numeral_div)

lemma float_exact: "\<bar>v\<bar> < 2 ^ 53 \<Longrightarrow> float v = v"
  by (simp add: float_def)

lemma as_float_NaN: "as_float NaN = NaN"
  by (simp add: as_float_def)

lemma float_2_53: "float 9007199254740992 = 9007199254740992"
  by (simp add: float_def round_significand.simps round_half_even_def Let_def floor_numeral_div)

section \<open>Filter compositor\<close>

lemma cell_le_in_range: "(cell_le (Num lo) c \<and> cell_le c (Num hi)) = in_range lo hi c"
  by (cases c) (simp_all add: in_range_def)

lemma cell_le_in_window: "(cell_le (Stamp s) c \<and> cell_le c (Stamp e)) = in_window s e c"
  by (cases c) (simp_all add: in_window_def)

lemma range_ok_Nil: "range_ok [] r"
  by (simp add: range_ok_def)

lemma range_ok_Cons:
  "range_ok ((col, lo, hi) # fs) r =
     ((cell_le (Num lo) (as_float (r col)) \<and> cell_le (as_float (r col)) (Num hi)) \<and>
      range_ok fs r)"
  by (simp add: range_ok_def)

lemma foldl_range_filter: "foldl range_filter xs fs = filter (range_ok fs) xs"
proof (induction fs arbitrary: xs)
  case Nil
  show ?case by (simp add: range_ok_Nil)
next
  case (Cons e fs)
  obtain col lo hi where e: "e = (col, lo, hi)" by (cases e) auto
  have "foldl range_filter xs (e # fs) = filter (range_ok fs) (range_filter xs e)"
    using Cons.IH by simp
  also have "\<dots> = filter (range_ok (e # fs)) xs"
    unfolding e range_filter_def by (simp, rule filter_cong) (simp_all add: range_ok_Cons)
  finally show ?case .
qed

lemma range_ok_in_range:
  "range_ok fs r = list_all (\<lambda>(col, lo, hi). in_range lo hi (as_float (r col))) fs"
  by (induction fs) (auto simp: range_ok_def cell_le_in_range)

lemma filtered_df_filter:
  "filtered_df df tickers (d0 # d1 # ds) fs =
     Inr (filter (\<lambda>r. r Ticker_Symbol \<in> set tickers \<and>
                      (cell_le d0 (r Trade_Date) \<and> cell_le (r Trade_Date) d1) \<and>
                      range_ok fs r) df)"
  by (simp add: foldl_range_filter isin_filter_def date_window_filter_def conj_ac)

lemma filtered_df_passes:
  "filtered_df df tickers [Stamp start, Stamp end] fs =
     Inr (filter (passes (set tickers) start end fs) df)"
  unfolding filtered_df_filter
  by (simp, rule filter_cong)
     (simp_all add: passes_def cell_le_in_window [symmetric] range_ok_in_range)

lemma ranges_representable:
  "representable fs r \<Longrightarrow>
   list_all (\<lambda>(col, lo, hi). in_range lo hi (as_float (r col))) fs =
   list_all (\<lambda>(col, lo, hi). in_range lo hi (r col)) fs"
  by (induction fs) (auto simp: representable_def)

lemma passes_representable:
  "representable fs r \<Longrightarrow> passes S start end fs r = passes_exact S start end fs r"
  by (simp add: passes_def passes_exact_def ranges_representable)

text \<open>
  C1. For every dataset, symbol list, date window and list of active ranges, the compositor
  returns exactly the rows whose symbol is selected, whose trade date lies in the window and
  whose value, converted to float64, lies in the range of every field with an active range:
  every returned row passes the three tests, every row of the input that passes them is
  returned, and the rows keep their order and multiplicity. Where the values of the fields
  with an active range are doubles (every value of a float64 column, and an int64 value up
  to \<open>2 ^ 53\<close> in magnitude), the range test is lo \<le> field \<le> hi on the value itself.
\<close>

theorem filtered_df_exact:
  "\<exists>out. filtered_df df tickers [Stamp start, Stamp end] fs = Inr out \<and>
         out = filter (passes (set tickers) start end fs) df \<and>
         (\<forall>r. r \<in> set out \<longleftrightarrow> r \<in> set df \<and> passes (set tickers) start end fs r) \<and>
         (list_all (representable fs) df \<longrightarrow>
            out = filter (passes_exact (set tickers) start end fs) df)"
proof -
  have "filter (passes (set tickers) start end fs) df =
          filter (passes_exact (set tickers) start end fs) df"
    if "list_all (representable fs) df"
    using that by (intro filter_cong refl passes_representable) (simp add: list_all_iff)
  then show ?thesis
    unfolding filtered_df_passes by auto
qed

theorem filtered_df_exact_witness:
  "list_all (representable [(''CHG%'', 0, 2)])
     [quote (Stamp 5) (Str ''ACC'') (Num 1) NaN,
      quote (Stamp 5) (Str ''TCS'') (Num 1) NaN,
      quote (Stamp 50) (Str ''ACC'') (Num 1) NaN,
      quote (Stamp 6) (Str ''ACC'') (Num 3) NaN,
      quote (Stamp 7) (Str ''ACC'') NaN NaN,
      quote (Stamp 8) (Str ''ACC'') (Num 2) NaN] \<and>
   (\<exists>out. filtered_df
           [quote (Stamp 5) (Str ''ACC'') (Num 1) NaN,
            quote (Stamp 5) (Str ''TCS'') (Num 1) NaN,
            quote (Stamp 50) (Str ''ACC'') (Num 1) NaN,
            quote (Stamp 6) (Str ''ACC'') (Num 3) NaN,
            quote (Stamp 7) (Str ''ACC'') NaN NaN,
            quote (Stamp 8) (Str ''ACC'') (Num 2) NaN]
           [Str ''ACC''] [Stamp 0, Stamp 10] [(''CHG%'', 0, 2)] = Inr out \<and>
         out = [quote (Stamp 5) (Str ''ACC'') (Num 1) NaN,
                quote (Stamp 8) (Str ''ACC'') (Num 2) NaN])"
  using filtered_df_exact
    [of "[quote (Stamp 5) (Str ''ACC'') (Num 1) NaN,
          quote (Stamp 5) (Str ''TCS'') (Num 1) NaN,
          quote (Stamp 50) (Str ''ACC'') (Num 1) NaN,
          quote (Stamp 6) (Str ''ACC'') (Num 3) NaN,
          quote (Stamp 7) (Str ''ACC'') NaN NaN,
          quote (Stamp 8) (Str ''ACC'') (Num 2) NaN]"
        "[Str ''ACC'']" 0 10 "[(''CHG%'', 0, 2)]"]
  by (simp add: passes_def passes_exact_def in_window_def in_range_def representable_def
      as_float_def float_def quote_def row_of_def)

text \<open>
  The claim as the specification words it, with the range test on the value itself, fails
  for an int64 value above \<open>2 ^ 53\<close>: the row with the value \<open>2 ^ 53 + 1\<close> is returned under
  the range from \<open>2 ^ 53\<close> to \<open>2 ^ 53\<close>, the range the untouched slider has for this one row.
\<close>

theorem filtered_df_exact_counterexample:
  "snd (numeric_loop (\<lambda>c. None) (\<lambda>c. All_Values) default_slider [''Change OI'']
          ([quote (Stamp 5) (Str ''ACC'') NaN (Num 9007199254740993)], [])) =
     [(''Change OI'', 9007199254740992, 9007199254740992)] \<and>
   filtered_df
     [quote (Stamp 5) (Str ''ACC'') NaN (Num 9007199254740993)]
     [Str ''ACC''] [Stamp 0, Stamp 10]
     [(''Change OI'', 9007199254740992, 9007199254740992)] \<noteq>
   Inr (filter
     (passes_exact (set [Str ''ACC'']) 0 10
        [(''Change OI'', 9007199254740992, 9007199254740992)])
     [quote (Stamp 5) (Str ''ACC'') NaN (Num 9007199254740993)])"
  by (simp add: passes_exact_def in_window_def in_range_def range_filter_def isin_filter_def
      date_window_filter_def as_float_def float_tie_down quote_def row_of_def
      numeric_step_def coerce_column_def apply_value_filter_def column_def dropna_def isna_def
      default_slider_def to_numeric_def replace_inf_def)

text \<open>
  C7. Applying the compositor with the same symbols, window and ranges to its own output
  returns that output unchanged.
\<close>

theorem filtered_df_idempotent:
  "filtered_df df tickers dr fs = Inr out \<Longrightarrow> filtered_df out tickers dr fs = Inr out"
proof (cases dr)
  case Nil
  then show "filtered_df df tickers dr fs = Inr out \<Longrightarrow> ?thesis" by simp
next
  case (Cons d0 ds)
  show "filtered_df df tickers dr fs = Inr out \<Longrightarrow> ?thesis"
  proof (cases ds)
    case Nil
    with Cons show "filtered_df df tickers dr fs = Inr out \<Longrightarrow> ?thesis" by simp
  next
    case (Cons d1 ds')
    assume "filtered_df df tickers dr fs = Inr out"
    then show ?thesis
      unfolding \<open>dr = d0 # ds\<close> Cons filtered_df_filter by auto
  qed
qed

theorem filtered_df_idempotent_witness:
  "filtered_df
     [quote (Stamp 5) (Str ''ACC'') (Num 1) NaN, quote (Stamp 6) (Str ''ACC'') (Num 3) NaN]
     [Str ''ACC''] [Stamp 0, Stamp 10] [(''CHG%'', 0, 2)]
     = Inr [quote (Stamp 5) (Str ''ACC'') (Num 1) NaN] \<and>
   filtered_df [quote (Stamp 5) (Str ''ACC'') (Num 1) NaN]
     [Str ''ACC''] [Stamp 0, Stamp 10] [(''CHG%'', 0, 2)]
     = Inr [quote (Stamp 5) (Str ''ACC'') (Num 1) NaN]"
proof -
  have h: "filtered_df
     [quote (Stamp 5) (Str ''ACC'') (Num 1) NaN, quote (Stamp 6) (Str ''ACC'') (Num 3) NaN]
     [Str ''ACC''] [Stamp 0, Stamp 10] [(''CHG%'', 0, 2)]
     = Inr [quote (Stamp 5) (Str ''ACC'') (Num 1) NaN]"
    by (simp add: range_filter_def isin_filter_def date_window_filter_def as_float_def
        float_def quote_def row_of_def)
  show ?thesis using h filtered_df_idempotent [OF h] by simp
qed

section \<open>Filter resolver\<close>

text \<open>
  C4. The date window of a preset mode is a function of the mode and the latest trade date
  alone: (latest, latest) for the latest date, and latest minus 1, 7 and 30 days up to latest
  for yesterday, the last week and the last month; a day is 86400000000000 nanoseconds. For
  the last week and the latest date 2024-06-10 the window is (2024-06-03, 2024-06-10).
\<close>

theorem date_range_presets:
  "date_range Latest_Date latest picked = [latest, latest] \<and>
   date_range Yesterday latest picked = [minus_Timedelta latest (Timedelta 1 0), latest] \<and>
   date_range Last_1_Week latest picked = [minus_Timedelta latest (Timedelta 7 0), latest] \<and>
   date_range Last_1_Month latest picked = [minus_Timedelta latest (Timedelta 30 0), latest] \<and>
   minus_Timedelta (Stamp t) (Timedelta n 0) = Stamp (t - n * 86400000000000) \<and>
   date_range Last_1_Week (Timestamp 2024 6 10) picked = [Timestamp 2024 6 3, Timestamp 2024 6 10]"
  by (simp add: date_range_def yesterday_def last_week_def last_month_def Timedelta_def
      minus_Timedelta_def Timestamp_def days_from_civil_def)

section \<open>Paginator\<close>

lemma slice_rows: "take n (drop k xs) = map ((!) xs) [k..<min (k + n) (length xs)]"
  by (auto simp: list_eq_iff_nth_eq min_def)

lemma bypass_small: "num_rows fd \<le> rows_per_page \<Longrightarrow> filtered_df_paginated fd p = fd"
  by (simp add: filtered_df_paginated_def)

lemma page_take_drop:
  "page_selectable fd p \<Longrightarrow>
   filtered_df_paginated fd p = take 10 (drop (nat ((p - 1) * 10)) fd)"
  unfolding page_selectable_def filtered_df_paginated_def page_number_bounds_def
    rows_per_page_def num_rows_def iloc_def slice_index_def Let_def
  by (auto simp: min_def)

lemma last_page_slice:
  fixes n :: int
  assumes "10 < n"
  shows "slice_index (n div 10 * 10) n = n div 10 * 10"
    and "slice_index (n div 10 * 10 + 10) n = n"
  using assms unfolding slice_index_def by (simp_all add: min_def; presburger)+

lemma last_page_empty:
  assumes a: "rows_per_page < num_rows fd"
  shows "(filtered_df_paginated fd (snd (page_number_bounds fd)) = []) = (num_rows fd mod 10 = 0)"
proof -
  define n where "n = int (length fd)"
  have n: "10 < n"
    using a by (simp add: n_def rows_per_page_def num_rows_def)
  have "filtered_df_paginated fd (snd (page_number_bounds fd)) =
          iloc fd (n div 10 * 10) (n div 10 * 10 + 10)"
    using n by (simp add: filtered_df_paginated_def page_number_bounds_def rows_per_page_def
        num_rows_def n_def Let_def)
  also have "\<dots> = take (nat (n - n div 10 * 10)) (drop (nat (n div 10 * 10)) fd)"
    using last_page_slice [OF n] by (simp add: iloc_def n_def)
  finally have "(filtered_df_paginated fd (snd (page_number_bounds fd)) = []) =
      (n - n div 10 * 10 \<le> 0 \<or> n \<le> n div 10 * 10)"
    using n by (simp add: n_def, arith)
  also have "\<dots> = (n mod 10 = 0)"
    by presburger
  finally show ?thesis
    by (simp add: n_def num_rows_def)
qed

text \<open>
  C5. With the page size 10: a filtered set of at most 10 rows is returned whole. Otherwise
  the page slider offers the page numbers 1 to (count div 10) + 1, page p is the rows with
  index from (p - 1) * 10 up to but excluding p * 10, cut at the end of the set, and the last
  page offered is empty exactly when the count is a multiple of 10.
\<close>

theorem pagination_pages:
  "(num_rows fd \<le> rows_per_page \<longrightarrow> filtered_df_paginated fd p = fd) \<and>
   (rows_per_page < num_rows fd \<longrightarrow>
      page_number_bounds fd = (1, num_rows fd div 10 + 1) \<and>
      (page_selectable fd p \<longleftrightarrow> 1 \<le> p \<and> p \<le> num_rows fd div 10 + 1) \<and>
      (filtered_df_paginated fd (num_rows fd div 10 + 1) = [] \<longleftrightarrow> num_rows fd mod 10 = 0)) \<and>
   (page_selectable fd p \<longrightarrow>
      filtered_df_paginated fd p =
        map ((!) fd) [nat ((p - 1) * 10)..<min (nat (p * 10)) (length fd)])"
proof (intro conjI impI)
  assume "num_rows fd \<le> rows_per_page"
  then show "filtered_df_paginated fd p = fd" by (rule bypass_small)
next
  assume "rows_per_page < num_rows fd"
  then show "page_number_bounds fd = (1, num_rows fd div 10 + 1)"
    by (simp add: page_number_bounds_def rows_per_page_def)
next
  assume "rows_per_page < num_rows fd"
  then show "page_selectable fd p \<longleftrightarrow> 1 \<le> p \<and> p \<le> num_rows fd div 10 + 1"
    by (simp add: page_selectable_def page_number_bounds_def rows_per_page_def)
next
  assume a: "rows_per_page < num_rows fd"
  show "filtered_df_paginated fd (num_rows fd div 10 + 1) = [] \<longleftrightarrow> num_rows fd mod 10 = 0"
    using last_page_empty [OF a] by (simp add: page_number_bounds_def rows_per_page_def)
next
  assume s: "page_selectable fd p"
  then have p: "1 \<le> p"
    by (simp add: page_selectable_def page_number_bounds_def)
  then have "nat ((p - 1) * 10) + 10 = nat (p * 10)"
    by (simp add: nat_add_distrib [symmetric] algebra_simps)
  then show "filtered_df_paginated fd p =
      map ((!) fd) [nat ((p - 1) * 10)..<min (nat (p * 10)) (length fd)]"
    using page_take_drop [OF s] slice_rows [of 10 "nat ((p - 1) * 10)" fd] by simp
qed

theorem pagination_pages_witness:
  "num_rows [0..<7::nat] \<le> rows_per_page \<and> filtered_df_paginated [0..<7::nat] 1 = [0..<7] \<and>
   rows_per_page < num_rows [0..<20::nat] \<and> page_selectable [0..<20::nat] 3 \<and>
   filtered_df_paginated [0..<20::nat] 3 = [] \<and>
   page_selectable [0..<25::nat] 3 \<and>
   filtered_df_paginated [0..<25::nat] 3 =
     map ((!) [0..<25]) [nat ((3 - 1) * 10)..<min (nat (3 * 10)) (length [0..<25::nat])]"
proof -
  have a: "num_rows [0..<7::nat] \<le> rows_per_page"
    by (simp add: num_rows_def rows_per_page_def)
  have b: "rows_per_page < num_rows [0..<20::nat]"
    by (simp add: num_rows_def rows_per_page_def)
  have c: "page_selectable [0..<20::nat] 3"
    by (simp add: page_selectable_def page_number_bounds_def num_rows_def rows_per_page_def)
  have d: "page_selectable [0..<25::nat] 3"
    by (simp add: page_selectable_def page_number_bounds_def num_rows_def rows_per_page_def)
  have e: "num_rows [0..<20::nat] div 10 + 1 = 3" "num_rows [0..<20::nat] mod 10 = 0"
    by (simp_all add: num_rows_def)
  show ?thesis
    using a b c d e pagination_pages [of "[0..<7::nat]" 1] pagination_pages [of "[0..<20::nat]" 3]
      pagination_pages [of "[0..<25::nat]" 3]
    by simp
qed

text \<open>
  C6. For a filtered set of exactly 25 rows and the page size 10, page 1 is rows[0:10], page 2
  is rows[10:20] and page 3 is rows[20:25]. The page slider offers the pages 1 to 3 only
  (25 div 10 + 1 = 3), so page 4 cannot be requested; the slice computed for the page number
  4 would be empty.
\<close>

theorem pages_of_25_rows:
  "length fd = 25 \<Longrightarrow>
   filtered_df_paginated fd 1 = take 10 fd \<and>
   filtered_df_paginated fd 2 = take 10 (drop 10 fd) \<and>
   filtered_df_paginated fd 3 = drop 20 fd \<and>
   page_number_bounds fd = (1, 3) \<and>
   page_selectable fd 3 \<and> \<not> page_selectable fd 4 \<and>
   filtered_df_paginated fd 4 = []"
  by (simp add: page_selectable_def filtered_df_paginated_def page_number_bounds_def
      rows_per_page_def num_rows_def iloc_def slice_index_def Let_def)

theorem pages_of_25_rows_witness:
  "length [0..<25::nat] = 25 \<and>
   filtered_df_paginated [0..<25::nat] 1 = [0..<10] \<and>
   filtered_df_paginated [0..<25::nat] 2 = [10..<20] \<and>
   filtered_df_paginated [0..<25::nat] 3 = [20..<25] \<and>
   page_number_bounds [0..<25::nat] = (1, 3) \<and>
   \<not> page_selectable [0..<25::nat] 4"
  using pages_of_25_rows [of "[0..<25::nat]"] by (simp add: take_upt)

text \<open>
  The claim as the specification words it, that page 4 can be requested under the slider's
  bounds for 25 rows and is then empty, fails: the slider does not offer page 4.
\<close>

theorem page_4_of_25_rows_counterexample:
  "\<not> (page_selectable [0..<25::nat] 4 \<and> filtered_df_paginated [0..<25::nat] 4 = [])"
  by (simp add: page_selectable_def page_number_bounds_def num_rows_def rows_per_page_def)

section \<open>Numeric range engine\<close>

lemma quote_apply:
  "quote d s a b Trade_Date = d" "quote d s a b Ticker_Symbol = s"
  "quote d s a b ''CHG%'' = a" "quote d s a b ''Change OI'' = b"
  by (simp_all add: quote_def row_of_def)

lemma scrub_simps:
  "scrub num (Num v) = Num v" "scrub num NaN = NaN" "scrub num PosInf = NaN" "scrub num NegInf = NaN"
  by (simp_all add: scrub_def to_numeric_def replace_inf_def)

lemma scrub_numeric: "numeric_cell (scrub num c)"
  by (cases c) (simp_all add: scrub_def to_numeric_def replace_inf_def numeric_cell_def split: option.split)

lemma scrub_idem: "scrub num (scrub num c) = scrub num c"
  by (cases c) (simp_all add: scrub_def to_numeric_def replace_inf_def split: option.split)

lemma keeps_code:
  "numeric_cell c \<Longrightarrow> keeps Only_Positive c = cell_less (Num 0) c"
  "numeric_cell c \<Longrightarrow> keeps Only_Negative c = cell_less c (Num 0)"
  by (cases c; simp add: keeps_def numeric_cell_def)+

lemma foldl_min_Num:
  "foldl (\<lambda>m x. if cell_less x m then x else m) (Num a) (map Num vs) = Num (fold min vs a)"
  by (induction vs arbitrary: a) (simp_all add: min_def not_less)

lemma foldl_max_Num:
  "foldl (\<lambda>m x. if cell_less m x then x else m) (Num a) (map Num vs) = Num (fold max vs a)"
  by (induction vs arbitrary: a) (simp_all add: max_def not_less)

lemma dropna_numeric:
  "list_all numeric_cell cs \<Longrightarrow> dropna cs = map Num (finite_values cs)"
  by (induction cs) (auto simp: dropna_def finite_values_def numeric_cell_def isna_def split: cell.splits)

lemma series_min_numeric:
  assumes "list_all numeric_cell cs"
  shows "series_min (dropna cs) =
           (case finite_values cs of [] \<Rightarrow> NaN | v # vs \<Rightarrow> Num (Min (set (v # vs))))"
  unfolding dropna_numeric [OF assms]
  by (cases "finite_values cs") (simp_all add: foldl_min_Num Min.set_eq_fold del: set_simps)

lemma series_max_numeric:
  assumes "list_all numeric_cell cs"
  shows "series_max (dropna cs) =
           (case finite_values cs of [] \<Rightarrow> NaN | v # vs \<Rightarrow> Num (Max (set (v # vs))))"
  unfolding dropna_numeric [OF assms]
  by (cases "finite_values cs") (simp_all add: foldl_max_Num Max.set_eq_fold del: set_simps)

lemma sign_filtered_eq:
  "sign_filtered num vt col df =
     map (\<lambda>r. r(col := scrub num (r col))) (filter (\<lambda>r. keeps vt (scrub num (r col))) df)"
proof -
  have n: "\<And>r. numeric_cell (scrub num (r col))" by (rule scrub_numeric)
  show ?thesis
    by (cases vt)
       (simp_all add: sign_filtered_def apply_value_filter_def coerce_column_def filter_map o_def
          keeps_code [OF n] scrub_def [symmetric], simp add: keeps_def)
qed

lemma column_sign_filtered_numeric:
  "list_all numeric_cell (column col (sign_filtered num vt col df))"
  by (simp add: sign_filtered_eq column_def list_all_iff scrub_numeric)

lemma numeric_step_eq:
  "numeric_step num vf sl col st =
     (sign_filtered num (vf col) col (fst st),
      case offered_range col (sign_filtered num (vf col) col (fst st)) of
        Some (lo, hi) \<Rightarrow> AList.update col (sl col (float lo) (float hi)) (snd st)
      | None \<Rightarrow> snd st)"
  unfolding numeric_step_def Let_def sign_filtered_def [symmetric] offered_range_def
    series_min_numeric [OF column_sign_filtered_numeric]
    series_max_numeric [OF column_sign_filtered_numeric]
  by (cases "finite_values (column col (sign_filtered num (vf col) col (fst st)))") simp_all

lemma scrubbed_step:
  "scrubbed num cols (r(col := scrub num (r col))) = scrubbed num (col # cols) r"
  by (rule ext) (simp add: scrubbed_def scrub_idem)

lemma scrub_after_step:
  "scrub num ((r(col := scrub num (r col))) c) = scrub num (r c)"
  by (simp add: scrub_idem)

lemma working_set_step:
  "working_set num vf cols (sign_filtered num (vf col) col df) = working_set num vf (col # cols) df"
  unfolding working_set_def sign_filtered_eq
  by (simp add: filter_map o_def scrubbed_step scrub_after_step conj_commute del: fun_upd_apply)

lemma scrubbed_Nil: "scrubbed num [] = (\<lambda>r. r)"
  by (intro ext) (simp add: scrubbed_def)

lemma fst_numeric_step: "fst (numeric_step num vf sl col st) = sign_filtered num (vf col) col (fst st)"
  by (simp add: numeric_step_eq)

lemma fst_numeric_loop:
  "fst (numeric_loop num vf sl cols st) = working_set num vf cols (fst st)"
proof (induction cols arbitrary: st)
  case Nil
  show ?case by (simp add: working_set_def scrubbed_Nil)
next
  case (Cons col cols)
  show ?case by (simp add: Cons.IH fst_numeric_step working_set_step)
qed

lemma numeric_loop_append:
  "numeric_loop num vf sl (xs @ ys) st = numeric_loop num vf sl ys (numeric_loop num vf sl xs st)"
  by (induction xs arbitrary: st) simp_all

lemma map_of_numeric_step_other:
  "c \<noteq> col \<Longrightarrow> map_of (snd (numeric_step num vf sl col st)) c = map_of (snd st) c"
  by (simp add: numeric_step_eq update_conv' split: option.split)

lemma map_of_numeric_loop_other:
  "c \<notin> set cols \<Longrightarrow> map_of (snd (numeric_loop num vf sl cols st)) c = map_of (snd st) c"
  by (induction cols arbitrary: st) (simp_all add: map_of_numeric_step_other)

lemma map_of_numeric_step_same:
  "map_of (snd (numeric_step num vf sl col st)) col =
     (case offered_range col (sign_filtered num (vf col) col (fst st)) of
        Some (lo, hi) \<Rightarrow> Some (sl col (float lo) (float hi))
      | None \<Rightarrow> map_of (snd st) col)"
  by (simp add: numeric_step_eq update_conv' split: option.split)

lemma working_set_column_numeric:
  "col \<in> set cols \<Longrightarrow> list_all numeric_cell (column col (working_set num vf cols df))"
  by (simp add: working_set_def column_def list_all_iff scrubbed_def scrub_numeric)

lemma offered_range_code:
  assumes "list_all numeric_cell (column col ws)"
  shows "(offered_range col ws = None \<longleftrightarrow>
            \<not> (isfinite (series_min (dropna (column col ws))) \<and>
               isfinite (series_max (dropna (column col ws)))))"
    and "offered_range col ws = Some (lo, hi) \<longleftrightarrow>
            series_min (dropna (column col ws)) = Num lo \<and>
            series_max (dropna (column col ws)) = Num hi"
  unfolding series_min_numeric [OF assms] series_max_numeric [OF assms] offered_range_def
  by (cases "finite_values (column col ws)"; simp add: isfinite_def del: set_simps)+

lemma demo_quotes_ranges:
  "snd (numeric_loop (\<lambda>c. None) (\<lambda>c. Only_Positive) default_slider [''CHG%'', ''Change OI'']
         (demo_quotes, [])) = [(''CHG%'', 1, 5), (''Change OI'', 2, 4)]"
  "snd (numeric_loop (\<lambda>c. None) (\<lambda>c. Only_Positive) default_slider [''Change OI'', ''CHG%'']
         (demo_quotes, [])) = [(''Change OI'', 2, 4), (''CHG%'', 3, 5)]"
  by (simp_all add: demo_quotes_def numeric_step_def coerce_column_def apply_value_filter_def
      column_def dropna_def isna_def default_slider_def quote_apply scrub_simps
      scrub_def [symmetric] float_def)

lemma demo_big_ranges:
  "snd (numeric_loop (\<lambda>c. None) (\<lambda>c. All_Values) default_slider [''Change OI'']
         (demo_big, [])) = [(''Change OI'', 9007199254740992, 9007199254740996)]"
  by (simp add: demo_big_def numeric_step_def coerce_column_def apply_value_filter_def
      column_def dropna_def isna_def default_slider_def quote_apply scrub_simps
      scrub_def [symmetric] float_2_53 float_tie_up)

text \<open>
  C2. The loop over the selected numeric fields replaces the working frame by its sign-filtered
  part at every field, so that after the loop the frame holds exactly the rows that pass the
  sign filters of all fields. The range slider of a field is created with the minimum and the
  maximum of the field over the working set left by the field's own sign filter and those
  of the fields before it, both converted to float (which leaves every value below \<open>2 ^ 53\<close>
  in magnitude as it is), and the field gets no range when that minimum or maximum is not
  finite. The fields are distinct, as a multiselect returns them.
\<close>

theorem numeric_loop_ranges:
  assumes "distinct (pre @ col # post)"
  shows "fst (numeric_loop num vf sl (pre @ col # post) (df, [])) =
           working_set num vf (pre @ col # post) df \<and>
         fst (numeric_loop num vf sl (pre @ [col]) (df, [])) =
           working_set num vf (pre @ [col]) df \<and>
         map_of (snd (numeric_loop num vf sl (pre @ col # post) (df, []))) col =
           (case offered_range col (working_set num vf (pre @ [col]) df) of
              Some (lo, hi) \<Rightarrow> Some (sl col (float lo) (float hi))
            | None \<Rightarrow> None) \<and>
         (offered_range col (working_set num vf (pre @ [col]) df) = None \<longleftrightarrow>
            \<not> (isfinite (series_min (dropna (column col (working_set num vf (pre @ [col]) df)))) \<and>
               isfinite (series_max (dropna (column col (working_set num vf (pre @ [col]) df)))))) \<and>
         (case offered_range col (working_set num vf (pre @ [col]) df) of
            Some (lo, hi) \<Rightarrow>
              series_min (dropna (column col (working_set num vf (pre @ [col]) df))) = Num lo \<and>
              series_max (dropna (column col (working_set num vf (pre @ [col]) df))) = Num hi
          | None \<Rightarrow> True) \<and>
         (\<forall>lo hi. offered_range col (working_set num vf (pre @ [col]) df) = Some (lo, hi) \<and>
                  \<bar>lo\<bar> < 2 ^ 53 \<and> \<bar>hi\<bar> < 2 ^ 53 \<longrightarrow>
            map_of (snd (numeric_loop num vf sl (pre @ col # post) (df, []))) col =
              Some (sl col lo hi))"
proof -
  let ?W = "working_set num vf (pre @ [col]) df"
  let ?st = "numeric_loop num vf sl pre (df, [])"
  have a: "col \<notin> set pre" and b: "col \<notin> set post"
    using assms by auto
  have 1: "fst (numeric_loop num vf sl (pre @ col # post) (df, [])) =
      working_set num vf (pre @ col # post) df"
    by (simp add: fst_numeric_loop)
  have 2: "fst (numeric_loop num vf sl (pre @ [col]) (df, [])) = ?W"
    by (simp add: fst_numeric_loop)
  have w: "sign_filtered num (vf col) col (fst ?st) = ?W"
    using 2 by (simp add: numeric_loop_append fst_numeric_step)
  have n: "map_of (snd ?st) col = None"
    using map_of_numeric_loop_other [OF a, of num vf sl "(df, [])"] by simp
  have "map_of (snd (numeric_loop num vf sl (pre @ col # post) (df, []))) col =
          map_of (snd (numeric_step num vf sl col ?st)) col"
    by (simp add: numeric_loop_append map_of_numeric_loop_other [OF b])
  also have "\<dots> = (case offered_range col ?W of
              Some (lo, hi) \<Rightarrow> Some (sl col (float lo) (float hi)) | None \<Rightarrow> None)"
    by (simp add: map_of_numeric_step_same w n split: option.split)
  finally have 3: "map_of (snd (numeric_loop num vf sl (pre @ col # post) (df, []))) col =
           (case offered_range col ?W of
              Some (lo, hi) \<Rightarrow> Some (sl col (float lo) (float hi)) | None \<Rightarrow> None)" .
  have c: "list_all numeric_cell (column col ?W)"
    by (rule working_set_column_numeric) simp
  have 4: "offered_range col ?W = None \<longleftrightarrow>
            \<not> (isfinite (series_min (dropna (column col ?W))) \<and>
               isfinite (series_max (dropna (column col ?W))))"
    by (rule offered_range_code(1) [OF c])
  have 5: "case offered_range col ?W of
            Some (lo, hi) \<Rightarrow>
              series_min (dropna (column col ?W)) = Num lo \<and>
              series_max (dropna (column col ?W)) = Num hi
          | None \<Rightarrow> True"
    using offered_range_code(2) [OF c] by (auto split: option.split)
  have 6: "\<forall>lo hi. offered_range col ?W = Some (lo, hi) \<and>
                  \<bar>lo\<bar> < 2 ^ 53 \<and> \<bar>hi\<bar> < 2 ^ 53 \<longrightarrow>
            map_of (snd (numeric_loop num vf sl (pre @ col # post) (df, []))) col =
              Some (sl col lo hi)"
    using 3 by (auto simp: float_exact)
  from 1 2 3 4 5 6 show ?thesis by blast
qed

theorem numeric_loop_ranges_witness:
  "distinct ([''CHG%''] @ ''Change OI'' # []) \<and>
   snd (numeric_loop (\<lambda>c. None) (\<lambda>c. Only_Positive) default_slider [''CHG%'', ''Change OI'']
          (demo_quotes, [])) = [(''CHG%'', 1, 5), (''Change OI'', 2, 4)] \<and>
   (case offered_range ''Change OI''
           (working_set (\<lambda>c. None) (\<lambda>c. Only_Positive) [''CHG%'', ''Change OI''] demo_quotes) of
      Some (lo, hi) \<Rightarrow> Some (default_slider ''Change OI'' (float lo) (float hi))
    | None \<Rightarrow> None) = Some (2, 4) \<and>
   offered_range ''Change OI''
     (working_set (\<lambda>c. None) (\<lambda>c. Only_Positive) [''CHG%'', ''Change OI''] demo_quotes) \<noteq> None \<and>
   snd (numeric_loop (\<lambda>c. None) (\<lambda>c. All_Values) default_slider [''Change OI'']
          (demo_big, [])) = [(''Change OI'', 9007199254740992, 9007199254740996)]"
proof -
  have d: "distinct ([''CHG%''] @ ''Change OI'' # [])"
    by simp
  note t = numeric_loop_ranges [OF d, where num = "\<lambda>c. None" and vf = "\<lambda>c. Only_Positive"
      and sl = default_slider and df = demo_quotes]
  have o: "(case offered_range ''Change OI''
           (working_set (\<lambda>c. None) (\<lambda>c. Only_Positive) [''CHG%'', ''Change OI''] demo_quotes) of
      Some (lo, hi) \<Rightarrow> Some (default_slider ''Change OI'' (float lo) (float hi))
    | None \<Rightarrow> None) = Some (2, 4)"
    using t by (simp add: demo_quotes_ranges(1) del: numeric_loop.simps)
  then have n: "offered_range ''Change OI''
     (working_set (\<lambda>c. None) (\<lambda>c. Only_Positive) [''CHG%'', ''Change OI''] demo_quotes) \<noteq> None"
    by (auto split: option.splits)
  show ?thesis
    using d o n by (simp add: demo_quotes_ranges(1) demo_big_ranges del: numeric_loop.simps)
qed

lemma range_ok_set:
  "range_ok fs r =
     (\<forall>(col, lo, hi)\<in>set fs. cell_le (Num lo) (as_float (r col)) \<and>
                              cell_le (as_float (r col)) (Num hi))"
  by (simp add: range_ok_def list_all_iff)

lemma set_update_subset: "set (AList.update k v al) \<subseteq> insert (k, v) (set al)"
  by (induction al) auto

lemma finite_values_mem: "Num v \<in> set cs \<Longrightarrow> v \<in> set (finite_values cs)"
  by (induction cs) (auto simp: finite_values_def)

lemma offered_range_bounds:
  assumes o: "offered_range col ws = Some (lo, hi)" and r: "r \<in> set ws" and v: "r col = Num v"
  shows "lo \<le> v \<and> v \<le> hi"
proof -
  have m: "v \<in> set (finite_values (column col ws))"
    using r v [symmetric] by (intro finite_values_mem) (auto simp: column_def)
  obtain x xs where x: "finite_values (column col ws) = x # xs"
    using m by (cases "finite_values (column col ws)") auto
  have "lo = Min (set (finite_values (column col ws)))" "hi = Max (set (finite_values (column col ws)))"
    using o by (simp_all add: offered_range_def x)
  then show ?thesis using m by simp
qed

lemma keeps_Num: "vt \<noteq> All_Values \<Longrightarrow> keeps vt c \<Longrightarrow> \<exists>v. c = Num v"
  by (cases vt; cases c) (simp_all add: keeps_def)

lemma ranges_cover_step:
  assumes inv: "ranges_cover st" and vt: "vf col \<noteq> All_Values" and new: "col \<notin> fst ` set (snd st)"
  shows "ranges_cover (numeric_step num vf default_slider col st)"
proof -
  let ?ws = "sign_filtered num (vf col) col (fst st)"
  let ?fs = "snd (numeric_step num vf default_slider col st)"
  have "range_ok ?fs r'" if r': "r' \<in> set ?ws" for r'
  proof -
    obtain r where r: "r \<in> set (fst st)" "keeps (vf col) (scrub num (r col))"
      "r' = r(col := scrub num (r col))"
      using r' by (auto simp: sign_filtered_eq)
    obtain v where v: "r' col = Num v"
      using keeps_Num [OF vt r(2)] r(3) by auto
    have old: "cell_le (Num lo) (as_float (r' c)) \<and> cell_le (as_float (r' c)) (Num hi)"
      if "(c, lo, hi) \<in> set (snd st)" for c lo hi
    proof -
      have "c \<noteq> col" using that new by force
      moreover have "range_ok (snd st) r" using inv r(1) by (simp add: ranges_cover_def list_all_iff)
      ultimately show ?thesis using that r(3) by (auto simp: range_ok_set)
    qed
    show ?thesis
    proof (cases "offered_range col ?ws")
      case None
      then show ?thesis using old by (auto simp: numeric_step_eq range_ok_set)
    next
      case (Some b)
      obtain lo hi where b: "b = (lo, hi)" by (cases b)
      have "lo \<le> v \<and> v \<le> hi"
        using offered_range_bounds [OF Some [unfolded b] r' v] .
      then have "float lo \<le> float v \<and> float v \<le> float hi"
        by (simp add: float_mono)
      then have "cell_le (Num (float lo)) (as_float (r' col)) \<and>
                 cell_le (as_float (r' col)) (Num (float hi))"
        by (simp add: v as_float_def)
      moreover have "set ?fs \<subseteq> insert (col, float lo, float hi) (set (snd st))"
        using set_update_subset [of col "(float lo, float hi)" "snd st"]
        by (simp add: numeric_step_eq Some b default_slider_def)
      ultimately show ?thesis using old unfolding range_ok_set by blast
    qed
  qed
  then show ?thesis
    by (simp add: ranges_cover_def list_all_iff fst_numeric_step)
qed

lemma keys_numeric_step:
  "fst ` set (snd (numeric_step num vf sl col st)) \<subseteq> insert col (fst ` set (snd st))"
  by (auto simp: numeric_step_eq dom_update split: option.splits)

lemma ranges_cover_loop:
  assumes "distinct cols" and "\<forall>c\<in>set cols. vf c \<noteq> All_Values"
    and "fst ` set (snd st) \<inter> set cols = {}" and "ranges_cover st"
  shows "ranges_cover (numeric_loop num vf default_slider cols st)"
  using assms
proof (induction cols arbitrary: st)
  case Nil
  then show ?case by simp
next
  case (Cons col cols)
  have "ranges_cover (numeric_step num vf default_slider col st)"
    using Cons.prems by (intro ranges_cover_step) auto
  moreover have "fst ` set (snd (numeric_step num vf default_slider col st)) \<inter> set cols = {}"
  proof -
    have "col \<notin> set cols" "fst ` set (snd st) \<inter> set cols = {}"
      using Cons.prems by auto
    with keys_numeric_step [of num vf default_slider col st] show ?thesis by blast
  qed
  ultimately show ?case using Cons.prems by (simp add: Cons.IH)
qed

lemma apply_filters_signed:
  assumes "distinct cols" and "\<forall>c\<in>set cols. vf c \<noteq> All_Values"
  shows "apply_filters num vf default_slider cols df tickers (d0 # d1 # ds) =
     Inr (filter (\<lambda>r. r Ticker_Symbol \<in> set tickers \<and>
                      cell_le d0 (r Trade_Date) \<and> cell_le (r Trade_Date) d1)
            (working_set num vf cols df))"
proof -
  let ?st = "numeric_loop num vf default_slider cols (df, [])"
  have "ranges_cover ?st"
    using assms by (intro ranges_cover_loop) (simp_all add: ranges_cover_def range_ok_Nil list_all_iff)
  then have c: "\<And>r. r \<in> set (working_set num vf cols df) \<Longrightarrow> range_ok (snd ?st) r"
    by (simp add: ranges_cover_def list_all_iff fst_numeric_loop)
  show ?thesis
    unfolding apply_filters_def Let_def filtered_df_filter
    by (simp add: fst_numeric_loop, rule filter_cong) (use c in auto)
qed

lemma working_set_cong:
  "set cols = set cols' \<Longrightarrow> working_set num vf cols df = working_set num vf cols' df"
  by (simp add: working_set_def list_all_iff scrubbed_def)

text \<open>
  C3. For two distinct numeric fields A and B, both positive-only, with the range sliders
  left at their defaults: filtering by A > 0 and then by B > 0 gives the rows with A > 0 and
  B > 0, the frame after the loop is the same for the order A, B and the order B, A, and so
  is the final filtered frame, which holds the rows of that frame with a selected symbol and
  a date in the window.
\<close>

theorem sign_filters_commute:
  assumes "A \<noteq> B" and "vf A = Only_Positive" and "vf B = Only_Positive"
  shows "sign_filtered num Only_Positive B (sign_filtered num Only_Positive A df) =
           map (scrubbed num [A, B])
             (filter (\<lambda>r. keeps Only_Positive (scrub num (r A)) \<and>
                           keeps Only_Positive (scrub num (r B))) df) \<and>
         fst (numeric_loop num vf sl [A, B] (df, [])) =
           sign_filtered num Only_Positive B (sign_filtered num Only_Positive A df) \<and>
         fst (numeric_loop num vf sl [B, A] (df, [])) = fst (numeric_loop num vf sl [A, B] (df, [])) \<and>
         apply_filters num vf default_slider [A, B] df tickers [d0, d1] =
           Inr (filter (\<lambda>r. r Ticker_Symbol \<in> set tickers \<and>
                            cell_le d0 (r Trade_Date) \<and> cell_le (r Trade_Date) d1)
                  (fst (numeric_loop num vf sl [A, B] (df, [])))) \<and>
         apply_filters num vf default_slider [B, A] df tickers [d0, d1] =
           apply_filters num vf default_slider [A, B] df tickers [d0, d1]"
proof -
  have s: "set [B, A] = set [A, B]" by auto
  have d: "distinct [A, B]" "distinct [B, A]" using assms by auto
  have v: "\<forall>c\<in>set [A, B]. vf c \<noteq> All_Values" "\<forall>c\<in>set [B, A]. vf c \<noteq> All_Values"
    using assms by auto
  have 1: "sign_filtered num Only_Positive B (sign_filtered num Only_Positive A df) =
      working_set num vf [A, B] df"
    using fst_numeric_loop [of num vf sl "[A, B]" "(df, [])"] assms
    by (simp add: fst_numeric_step)
  have 2: "working_set num vf [A, B] df = map (scrubbed num [A, B])
             (filter (\<lambda>r. keeps Only_Positive (scrub num (r A)) \<and>
                           keeps Only_Positive (scrub num (r B))) df)"
    using assms by (simp add: working_set_def)
  show ?thesis
    unfolding apply_filters_signed [OF d(1) v(1)] apply_filters_signed [OF d(2) v(2)]
      fst_numeric_loop 1
    using 2 working_set_cong [OF s, of num vf df] by simp
qed

theorem sign_filters_commute_witness:
  "''CHG%'' \<noteq> ''Change OI'' \<and>
   apply_filters (\<lambda>c. None) (\<lambda>c. Only_Positive) default_slider [''CHG%'', ''Change OI'']
       demo_quotes [Str ''ACC'', Str ''TCS''] [Stamp 0, Stamp 10] =
     Inr [quote (Stamp 5) (Str ''ACC'') (Num 5) (Num 2),
          quote (Stamp 5) (Str ''TCS'') (Num 3) (Num 4)] \<and>
   apply_filters (\<lambda>c. None) (\<lambda>c. Only_Positive) default_slider [''Change OI'', ''CHG%'']
       demo_quotes [Str ''ACC'', Str ''TCS''] [Stamp 0, Stamp 10] =
     Inr [quote (Stamp 5) (Str ''ACC'') (Num 5) (Num 2),
          quote (Stamp 5) (Str ''TCS'') (Num 3) (Num 4)] \<and>
   snd (numeric_loop (\<lambda>c. None) (\<lambda>c. Only_Positive) default_slider [''CHG%'', ''Change OI'']
          (demo_quotes, [])) = [(''CHG%'', 1, 5), (''Change OI'', 2, 4)] \<and>
   snd (numeric_loop (\<lambda>c. None) (\<lambda>c. Only_Positive) default_slider [''Change OI'', ''CHG%'']
          (demo_quotes, [])) = [(''Change OI'', 2, 4), (''CHG%'', 3, 5)]"
proof -
  have n: "''CHG%'' \<noteq> ''Change OI''"
    by simp
  have e: "apply_filters (\<lambda>c. None) (\<lambda>c. Only_Positive) default_slider [''CHG%'', ''Change OI'']
       demo_quotes [Str ''ACC'', Str ''TCS''] [Stamp 0, Stamp 10] =
     Inr [quote (Stamp 5) (Str ''ACC'') (Num 5) (Num 2),
          quote (Stamp 5) (Str ''TCS'') (Num 3) (Num 4)]"
    by (simp add: apply_filters_def demo_quotes_def numeric_step_def coerce_column_def
        apply_value_filter_def column_def dropna_def isna_def default_slider_def quote_apply
        scrub_simps scrub_def [symmetric] fun_upd_idem isin_filter_def date_window_filter_def
        range_filter_def as_float_def float_def)
  show ?thesis
    using n e demo_quotes_ranges
      sign_filters_commute [OF n, where vf = "\<lambda>c. Only_Positive" and num = "\<lambda>c. None"
        and sl = default_slider and df = demo_quotes and tickers = "[Str ''ACC'', Str ''TCS'']"
        and ?d0.0 = "Stamp 0" and ?d1.0 = "Stamp 10"]
    by (simp del: numeric_loop.simps)
qed

section \<open>Loader and coercion\<close>

lemma to_datetime_cases: "to_datetime parse c = NaT \<or> (\<exists>t. to_datetime parse c = Stamp t)"
  by (cases c) (simp_all add: to_datetime_def split: option.split)

lemma isna_to_datetime: "isna (to_datetime parse c) = (to_datetime parse c = NaT)"
  using to_datetime_cases [of parse c] by (auto simp: isna_def)

lemma load_eq:
  "load parse df =
     map (\<lambda>r. r(Trade_Date := to_datetime parse (r Trade_Date)))
       (filter (\<lambda>r. to_datetime parse (r Trade_Date) \<noteq> NaT) df)"
  by (simp add: load_def dropna_Trade_Date_def coerce_Trade_Date_def filter_map o_def isna_to_datetime)



lemma demo_load:
  "load demo_parse_date demo_rows =
     [(quote (Str ''2024-06-10'') (Str ''ACC'') (Num 1) (Num 2))(Trade_Date := Timestamp 2024 6 10),
      (quote (Str ''2024-06-07'') (Str ''TCS'') (Num (-3)) (Num 2))(Trade_Date := Timestamp 2024 6 7),
      (quote (Str ''2024-06-07'') (Str ''INFY'') (Num 4) (Num 5))(Trade_Date := Timestamp 2024 6 7)]"
  by (simp add: load_def coerce_Trade_Date_def dropna_Trade_Date_def demo_rows_def quote_apply
      to_datetime_def demo_parse_date_def isna_def Timestamp_def)



section \<open>Order of the rows\<close>

lemma subseq_iloc: "subseq (iloc xs a b) xs"
proof -
  have "sublist (take n (drop k xs)) xs" for n k
    using sublist_take sublist_drop sublist_order.order_trans by blast
  then show ?thesis by (auto simp: iloc_def Let_def)
qed

lemma subseq_paginated: "subseq (filtered_df_paginated fd p) fd"
  by (simp add: filtered_df_paginated_def Let_def subseq_iloc)

lemma subseq_range_filter: "subseq (range_filter fd e) fd"
  by (cases e) (simp add: range_filter_def)

lemma subseq_filtered_df: "filtered_df df tickers dr fs = Inr out \<Longrightarrow> subseq out df"
  by (cases dr; cases "tl dr") (auto simp: foldl_range_filter isin_filter_def date_window_filter_def
      intro: subseq_order.trans [OF subseq_filter_left])

lemma subseq_apply_value_filter: "subseq (apply_value_filter vt col df) df"
  by (cases vt) (simp_all add: apply_value_filter_def)

lemma filtered_df_is_filter:
  assumes "filtered_df df tickers dr fs = Inr out"
  shows "\<exists>R. out = filter R df"
proof (cases dr)
  case Nil
  with assms show ?thesis by simp
next
  case (Cons d0 ds)
  show ?thesis
  proof (cases ds)
    case Nil
    with assms Cons show ?thesis by simp
  next
    case (Cons d1 ds')
    have "out = filter (\<lambda>r. r Ticker_Symbol \<in> set tickers \<and>
                      (cell_le d0 (r Trade_Date) \<and> cell_le (r Trade_Date) d1) \<and>
                      range_ok fs r) df"
      using assms unfolding \<open>dr = d0 # ds\<close> Cons filtered_df_filter by simp
    then show ?thesis by blast
  qed
qed

lemma screen_subseq:
  assumes "screen pd w raw = Inr out"
  shows "\<exists>kept. subseq kept raw \<and>
           out = map (\<lambda>r. scrubbed (parse_number pd) (selected_numeric_columns w)
                            (fix_date (parse_date pd) r)) kept"
proof -
  let ?g = "\<lambda>r. scrubbed (parse_number pd) (selected_numeric_columns w) (fix_date (parse_date pd) r)"
  obtain Q where l: "load (parse_date pd) raw = map (fix_date (parse_date pd)) (filter Q raw)"
    unfolding load_eq fix_date_def by blast
  obtain P where ws: "working_set (parse_number pd) (value_filter w) (selected_numeric_columns w)
       (load (parse_date pd) raw) = map ?g (filter P raw)"
    unfolding working_set_def l by (auto simp: filter_map o_def)
  obtain R where "out = filter R (map ?g (filter P raw))"
    using assms filtered_df_is_filter
    unfolding screen_def Let_def apply_filters_def fst_numeric_loop fst_conv ws
    by blast
  then have "out = map ?g (filter (\<lambda>r. P r \<and> R (?g r)) raw)"
    by (simp add: filter_map o_def)
  then show ?thesis
    by (intro exI [of _ "filter (\<lambda>r. P r \<and> R (?g r)) raw"]) simp
qed

lemma paginated_map:
  "filtered_df_paginated (map f xs) p = map f (filtered_df_paginated xs p)"
  by (simp add: filtered_df_paginated_def num_rows_def iloc_def Let_def take_map drop_map)

lemma select_columns_apply_link:
  "select_columns cols (apply_link repr fd) = map (linked_cells repr cols) fd"
  by (simp add: select_columns_def apply_link_def linked_cells_def)

lemma app_Inr:
  assumes "app pd w raw = Inr res"
  shows "\<exists>fd. screen pd w raw = Inr fd \<and>
           csv res = map (linked_cells (str pd) (display_columns w)) fd \<and>
           shown res = map (linked_cells (str pd) (display_columns w))
                         (filtered_df_paginated fd (page_number w))"
proof -
  obtain fd where fd: "screen pd w raw = Inr fd"
    using assms by (cases "screen pd w raw") (simp_all add: app_def)
  have r: "res = \<lparr>shown = select_columns (display_columns w)
                    (filtered_df_paginated (apply_link (str pd) fd) (page_number w)),
                  csv = select_columns (display_columns w) (apply_link (str pd) fd)\<rparr>"
    using assms by (simp add: app_def fd Let_def)
  have "filtered_df_paginated (apply_link (str pd) fd) (page_number w) =
          apply_link (str pd) (filtered_df_paginated fd (page_number w))"
    unfolding apply_link_def by (rule paginated_map)
  then show ?thesis
    using fd r by (simp add: select_columns_apply_link)
qed

lemma demo_app: "app demo_pandas demo_widgets demo_rows = Inr demo_rendered"
  by (simp add: app_def screen_def demo_pandas_def demo_widgets_def demo_load demo_rendered_def
      latest_date_def column_def dropna_def isna_def Timestamp_def days_from_civil_def
      date_range_def last_week_def minus_Timedelta_def Timedelta_def
      selected_tickers_def symbols_def quote_apply
      apply_filters_def numeric_step_def coerce_column_def apply_value_filter_def
      to_numeric_def replace_inf_def default_slider_def
      isin_filter_def date_window_filter_def range_filter_def as_float_def float_def
      apply_link_def make_tradingview_link_def format_value_def
      filtered_df_paginated_def num_rows_def rows_per_page_def select_columns_def)

text \<open>
  C9. Every filtering stage returns a subsequence of the frame it is given: dropping the rows
  without a date, the sign filter, the symbol filter, the date window, each range filter and
  the page slice only remove rows. So the filtered frame is a subsequence of the loaded rows,
  each with its date and its selected numeric fields coerced, and the export and the page
  list these rows in that order.
\<close>

theorem filtering_keeps_order:
  "subseq (dropna_Trade_Date df) df \<and>
   subseq (apply_value_filter vt col df) df \<and>
   subseq (isin_filter df tickers) df \<and>
   subseq (date_window_filter df d0 d1) df \<and>
   subseq (range_filter df e) df \<and>
   subseq (filtered_df_paginated df p) df \<and>
   (filtered_df df tickers dr fs = Inr out \<longrightarrow> subseq out df) \<and>
   (screen pd w raw = Inr fd \<longrightarrow>
      (\<exists>kept. subseq kept raw \<and>
         fd = map (\<lambda>r. scrubbed (parse_number pd) (selected_numeric_columns w)
                          (fix_date (parse_date pd) r)) kept)) \<and>
   (app pd w raw = Inr res \<longrightarrow>
      (\<exists>fd' page. screen pd w raw = Inr fd' \<and> subseq page fd' \<and>
         csv res = map (linked_cells (str pd) (display_columns w)) fd' \<and>
         shown res = map (linked_cells (str pd) (display_columns w)) page))"
proof (intro conjI impI)
  show "subseq (dropna_Trade_Date df) df"
    by (simp add: dropna_Trade_Date_def)
  show "subseq (apply_value_filter vt col df) df"
    by (rule subseq_apply_value_filter)
  show "subseq (isin_filter df tickers) df"
    by (simp add: isin_filter_def)
  show "subseq (date_window_filter df d0 d1) df"
    by (simp add: date_window_filter_def)
  show "subseq (range_filter df e) df"
    by (rule subseq_range_filter)
  show "subseq (filtered_df_paginated df p) df"
    by (rule subseq_paginated)
next
  assume "filtered_df df tickers dr fs = Inr out"
  then show "subseq out df" by (rule subseq_filtered_df)
next
  assume "screen pd w raw = Inr fd"
  then show "\<exists>kept. subseq kept raw \<and>
         fd = map (\<lambda>r. scrubbed (parse_number pd) (selected_numeric_columns w)
                          (fix_date (parse_date pd) r)) kept"
    by (rule screen_subseq)
next
  assume "app pd w raw = Inr res"
  from app_Inr [OF this] obtain fd' where
    "screen pd w raw = Inr fd'"
    "csv res = map (linked_cells (str pd) (display_columns w)) fd'"
    "shown res = map (linked_cells (str pd) (display_columns w))
                   (filtered_df_paginated fd' (page_number w))"
    by blast
  then show "\<exists>fd' page. screen pd w raw = Inr fd' \<and> subseq page fd' \<and>
         csv res = map (linked_cells (str pd) (display_columns w)) fd' \<and>
         shown res = map (linked_cells (str pd) (display_columns w)) page"
    using subseq_paginated [of fd' "page_number w"] by blast
qed

theorem filtering_keeps_order_witness:
  "app demo_pandas demo_widgets demo_rows = Inr demo_rendered \<and>
   (\<exists>fd kept. screen demo_pandas demo_widgets demo_rows = Inr fd \<and> length fd = 2 \<and>
      subseq kept demo_rows \<and>
      fd = map (\<lambda>r. scrubbed (parse_number demo_pandas) (selected_numeric_columns demo_widgets)
                      (fix_date (parse_date demo_pandas) r)) kept) \<and>
   (\<exists>fd' page. screen demo_pandas demo_widgets demo_rows = Inr fd' \<and> subseq page fd' \<and>
      csv demo_rendered = map (linked_cells (str demo_pandas) (display_columns demo_widgets)) fd' \<and>
      shown demo_rendered = map (linked_cells (str demo_pandas) (display_columns demo_widgets)) page)"
proof -
  from app_Inr [OF demo_app] obtain fd where
    a: "screen demo_pandas demo_widgets demo_rows = Inr fd" and
    b: "csv demo_rendered = map (linked_cells (str demo_pandas) (display_columns demo_widgets)) fd"
    by blast
  have "length (csv demo_rendered) = 2"
    by (simp add: demo_rendered_def)
  with b have l: "length fd = 2"
    by simp
  note t = filtering_keeps_order [where pd = demo_pandas and w = demo_widgets and raw = demo_rows
      and res = demo_rendered and fd = fd]
  from t a have k: "\<exists>kept. subseq kept demo_rows \<and>
      fd = map (\<lambda>r. scrubbed (parse_number demo_pandas) (selected_numeric_columns demo_widgets)
                      (fix_date (parse_date demo_pandas) r)) kept"
    by blast
  from t demo_app have p: "\<exists>fd' page. screen demo_pandas demo_widgets demo_rows = Inr fd' \<and>
      subseq page fd' \<and>
      csv demo_rendered = map (linked_cells (str demo_pandas) (display_columns demo_widgets)) fd' \<and>
      shown demo_rendered = map (linked_cells (str demo_pandas) (display_columns demo_widgets)) page"
    by blast
  from a l k demo_app p show ?thesis by blast
qed

section \<open>Link transformer and export\<close>

lemma link_longer: "make_tradingview_link s \<noteq> s"
proof
  assume "make_tradingview_link s = s"
  then have "length (make_tradingview_link s) = length s" by simp
  then show False by (simp add: make_tradingview_link_def)
qed

text \<open>
  C10. The symbols of the filtered frame are rewritten before the page is cut and before the
  export is made: the export holds one row for every filtered row, with the cells of the
  chosen display columns in the chosen order, and the page holds the same cells for the rows
  of the page. The cell of the symbol column is the markdown link built from the symbol,
  "[s](https://www.tradingview.com/chart/?symbol=NSE:s)", which differs from the symbol s.
\<close>

theorem export_carries_links:
  assumes "app pd w raw = Inr res"
  shows "\<exists>fd. screen pd w raw = Inr fd \<and>
           csv res = map (linked_cells (str pd) (display_columns w)) fd \<and>
           length (csv res) = length fd \<and>
           shown res = map (linked_cells (str pd) (display_columns w))
                         (filtered_df_paginated fd (page_number w)) \<and>
           list_all (\<lambda>r. \<forall>s. r Ticker_Symbol = Str s \<longrightarrow>
                      linked_cells (str pd) [Ticker_Symbol] r =
                        [Str (''['' @ s @ ''](https://www.tradingview.com/chart/?symbol=NSE:'' @ s @ '')'')] \<and>
                      linked_cells (str pd) [Ticker_Symbol] r \<noteq> [r Ticker_Symbol]) fd"
proof -
  from app_Inr [OF assms] obtain fd where fd:
    "screen pd w raw = Inr fd"
    "csv res = map (linked_cells (str pd) (display_columns w)) fd"
    "shown res = map (linked_cells (str pd) (display_columns w))
                   (filtered_df_paginated fd (page_number w))"
    by blast
  have "linked_cells (str pd) [Ticker_Symbol] r =
          [Str (''['' @ s @ ''](https://www.tradingview.com/chart/?symbol=NSE:'' @ s @ '')'')] \<and>
        linked_cells (str pd) [Ticker_Symbol] r \<noteq> [r Ticker_Symbol]"
    if "r Ticker_Symbol = Str s" for r s
    using that link_longer [of s]
    by (simp add: linked_cells_def format_value_def make_tradingview_link_def)
  then show ?thesis
    using fd by (auto simp: list_all_iff)
qed

theorem export_carries_links_witness:
  "app demo_pandas demo_widgets demo_rows = Inr demo_rendered \<and>
   (\<exists>fd. screen demo_pandas demo_widgets demo_rows = Inr fd \<and> length fd = 2 \<and>
      csv demo_rendered = map (linked_cells (str demo_pandas) (display_columns demo_widgets)) fd)"
proof -
  from export_carries_links [OF demo_app] obtain fd where
    a: "screen demo_pandas demo_widgets demo_rows = Inr fd" and
    b: "csv demo_rendered = map (linked_cells (str demo_pandas) (display_columns demo_widgets)) fd" and
    c: "length (csv demo_rendered) = length fd"
    by blast
  have "length (csv demo_rendered) = 2"
    by (simp add: demo_rendered_def)
  with c have "length fd = 2" by simp
  with a b demo_app show ?thesis by blast
qed

end
